theory Spec2Isabelle
  imports Complex_Main
begin

section \<open>Ninja Game Simulator: a shallow embedding of main.js\<close>

text \<open>
  The classes of \<^verbatim>\<open>main.js\<close> are modelled in the order of the source. An object is a
  record, a method takes the record and returns the updated one. JavaScript numbers
  are modelled as exact rationals (\<^typ>\<open>rat\<close>): sums, differences and comparisons are
  those of the mathematical values, without the rounding, infinities and NaN of IEEE
  doubles. Frame indices and counters, which the code only ever sets to 0, increments
  by one or sets to \<^verbatim>\<open>frames.length - 1\<close> behind a check that the length is positive,
  are natural numbers. A \<^verbatim>\<open>while\<close> loop whose exit depends on the data is a
  \<^theory_text>\<open>partial_function\<close> into \<^typ>\<open>'a option\<close>: \<^term>\<open>None\<close> is a loop that never exits.
  What a method does to the outside (events emitted on the bus, image requests,
  calls into the renderer) is returned as a list, in the order of the calls.
\<close>

subsection \<open>Events on the bus\<close>

text \<open>
  The four event names used with \<^verbatim>\<open>EventBus.emit\<close>. The payload of an \<^verbatim>\<open>"action"\<close>
  event is a string or absent (\<^verbatim>\<open>undefined\<close>); \<^verbatim>\<open>"reset"\<close> is emitted without payload.
\<close>

datatype bus_event =
    Action "string option"
  | Reset
  | QueueChanged "string list"
  | StateChanged string

subsection \<open>AssetLoader\<close>

datatype js_error = Error string | TypeError

datatype load_effect =
    ImageRequest string   \<comment> \<open>\<^verbatim>\<open>new Image()\<close> with \<^verbatim>\<open>img.src = url\<close>\<close>
  | Progress nat nat      \<comment> \<open>\<^verbatim>\<open>onProgress(done, total)\<close>\<close>

record 'img AssetLoader =
  basePath :: string
  cache :: "string \<rightharpoonup> 'img"

definition AssetLoader_new :: "string \<Rightarrow> 'img AssetLoader" where
  "AssetLoader_new bp = \<lparr>basePath = bp, cache = Map.empty\<rparr>"

text \<open>
  \<^verbatim>\<open>loadImage(url)\<close>. The outcome of a load is given by the environment \<open>net\<close>:
  \<^term>\<open>Some img\<close> when \<^verbatim>\<open>onload\<close> fires on the new element \<open>img\<close>, \<^term>\<open>None\<close> when
  \<^verbatim>\<open>onerror\<close> fires. The promise is modelled by its settled value: \<^term>\<open>Inr img\<close>
  resolved, \<^term>\<open>Inl e\<close> rejected. The environment is consulted only when the cache
  misses.
\<close>

definition loadImage ::
  "(string \<Rightarrow> 'img option) \<Rightarrow> 'img AssetLoader \<Rightarrow> string
     \<Rightarrow> (js_error + 'img) \<times> 'img AssetLoader \<times> load_effect list" where
  "loadImage net L url =
     (case cache L url of
        Some img \<Rightarrow> (Inr img, L, [])
      | None \<Rightarrow>
          (case net url of
             Some img \<Rightarrow> (Inr img, L\<lparr>cache := (cache L)(url \<mapsto> img)\<rparr>, [ImageRequest url])
           | None \<Rightarrow> (Inl (Error (''Failed to load image: '' @ url)), L, [ImageRequest url])))"

text \<open>The decimal digits of a frame number, as a template literal prints an integer.\<close>

definition digit :: "nat \<Rightarrow> char" where
  "digit d = ''0123456789'' ! d"

fun decimal :: "nat \<Rightarrow> string" where
  "decimal n =
     (if n < 10 then [digit n]
      else decimal (n div 10) @ [digit (n mod 10)])"

declare decimal.simps [simp del]

definition frame_url :: "'img AssetLoader \<Rightarrow> string \<Rightarrow> nat \<Rightarrow> string" where
  "frame_url L animation frameNumber =
     basePath L @ ''/'' @ animation @ ''/'' @ decimal frameNumber @ ''.png''"

text \<open>
  The inner loop of \<^verbatim>\<open>loadAnimations\<close>: the frames of one animation, loaded one after
  the other. A rejected \<^verbatim>\<open>await\<close> leaves the loop and the function.
\<close>

fun loadFrames ::
  "(string \<Rightarrow> 'img option) \<Rightarrow> string \<Rightarrow> nat \<Rightarrow> nat list \<Rightarrow> 'img AssetLoader \<Rightarrow> nat
     \<Rightarrow> (js_error + 'img list) \<times> 'img AssetLoader \<times> nat \<times> load_effect list" where
  "loadFrames net animation ntotal [] L ndone = (Inr [], L, ndone, [])"
| "loadFrames net animation ntotal (frameNumber # rest) L ndone =
     (case loadImage net L (frame_url L animation frameNumber) of
        (Inl e, L1, tr) \<Rightarrow> (Inl e, L1, ndone, tr)
      | (Inr img, L1, tr) \<Rightarrow>
          (case loadFrames net animation ntotal rest L1 (ndone + 1) of
             (Inl e, L2, ndone2, tr2) \<Rightarrow> (Inl e, L2, ndone2, tr @ [Progress (ndone + 1) ntotal] @ tr2)
           | (Inr images, L2, ndone2, tr2) \<Rightarrow>
               (Inr (img # images), L2, ndone2, tr @ [Progress (ndone + 1) ntotal] @ tr2)))"

text \<open>
  The outer loop, over \<^verbatim>\<open>Object.keys(framesByAnimation)\<close> in insertion order: the record
  of frame numbers is an association list, and so is the result.
\<close>

fun loadAnimationsLoop ::
  "(string \<Rightarrow> 'img option) \<Rightarrow> nat \<Rightarrow> (string \<times> nat list) list \<Rightarrow> 'img AssetLoader \<Rightarrow> nat
     \<Rightarrow> (js_error + (string \<times> 'img list) list) \<times> 'img AssetLoader \<times> load_effect list" where
  "loadAnimationsLoop net ntotal [] L ndone = (Inr [], L, [])"
| "loadAnimationsLoop net ntotal ((animation, frames) # rest) L ndone =
     (case loadFrames net animation ntotal frames L ndone of
        (Inl e, L1, ndone1, tr) \<Rightarrow> (Inl e, L1, tr)
      | (Inr images, L1, ndone1, tr) \<Rightarrow>
          (case loadAnimationsLoop net ntotal rest L1 ndone1 of
             (Inl e, L2, tr2) \<Rightarrow> (Inl e, L2, tr @ tr2)
           | (Inr result, L2, tr2) \<Rightarrow> (Inr ((animation, images) # result), L2, tr @ tr2)))"

definition loadAnimations ::
  "(string \<Rightarrow> 'img option) \<Rightarrow> 'img AssetLoader \<Rightarrow> (string \<times> nat list) list
     \<Rightarrow> (js_error + (string \<times> 'img list) list) \<times> 'img AssetLoader \<times> load_effect list" where
  "loadAnimations net L framesByAnimation =
     (let ntotal = sum_list (map (\<lambda>(a, frames). length frames) framesByAnimation)
      in loadAnimationsLoop net ntotal framesByAnimation L 0)"

subsection \<open>AnimationPlayer\<close>

record 'img AnimationPlayer =
  animations :: "string \<rightharpoonup> 'img list"
  frameDurations :: "string \<rightharpoonup> rat"
  current :: string
  loop :: bool
  frameIndex :: nat
  accumulator :: rat
  finished :: bool

definition AnimationPlayer_new ::
  "(string \<rightharpoonup> 'img list) \<Rightarrow> (string \<rightharpoonup> rat) \<Rightarrow> 'img AnimationPlayer" where
  "AnimationPlayer_new anims frameDurationMsByAnim =
     \<lparr>animations = anims, frameDurations = frameDurationMsByAnim,
      current = ''idle'', loop = True, frameIndex = 0, accumulator = 0, finished = False\<rparr>"

text \<open>\<^verbatim>\<open>play(animation, { loop })\<close>, with its two early returns.\<close>

definition play :: "'img AnimationPlayer \<Rightarrow> string \<Rightarrow> bool \<Rightarrow> 'img AnimationPlayer" where
  "play p animation lp =
     (if animations p animation = None then p
      else if current p = animation \<and> loop p = lp \<and> \<not> finished p then p
      else p\<lparr>current := animation, loop := lp, frameIndex := 0,
              accumulator := 0, finished := False\<rparr>)"

text \<open>\<^verbatim>\<open>this.frameDurations[this.current] ?? 100\<close>\<close>

definition frameDuration :: "'img AnimationPlayer \<Rightarrow> rat" where
  "frameDuration p = (case frameDurations p (current p) of Some d \<Rightarrow> d | None \<Rightarrow> 100)"

text \<open>
  The \<^verbatim>\<open>while\<close> loop of \<^verbatim>\<open>update\<close>, for a frame list of length \<open>n\<close> and a frame
  duration \<open>d\<close>. The branch with \<^verbatim>\<open>break\<close> returns.
\<close>

partial_function (option) update_loop ::
  "nat \<Rightarrow> rat \<Rightarrow> 'img AnimationPlayer \<Rightarrow> 'img AnimationPlayer option" where
  "update_loop n d p =
     (if accumulator p \<ge> d then
        (let p1 = p\<lparr>accumulator := accumulator p - d\<rparr>;
             p2 = p1\<lparr>frameIndex := frameIndex p1 + 1\<rparr>
         in if frameIndex p2 \<ge> n then
              (if loop p2 then update_loop n d (p2\<lparr>frameIndex := 0\<rparr>)
               else Some (p2\<lparr>frameIndex := n - 1, finished := True\<rparr>))
            else update_loop n d p2)
      else Some p)"

declare update_loop.simps [code]

definition AnimationPlayer_update ::
  "'img AnimationPlayer \<Rightarrow> rat \<Rightarrow> 'img AnimationPlayer option" where
  "AnimationPlayer_update p dtMs =
     (case animations p (current p) of
        None \<Rightarrow> Some p
      | Some frames \<Rightarrow>
          if length frames = 0 then Some p
          else update_loop (length frames) (frameDuration p)
                 (p\<lparr>accumulator := accumulator p + dtMs\<rparr>))"





subsection \<open>PlayerController\<close>

text \<open>
  The fields \<^verbatim>\<open>x\<close> and \<^verbatim>\<open>y\<close> are \<open>player_x\<close> and \<open>player_y\<close>. The bus is not a field:
  each method returns the events it emits.
\<close>

record 'img PlayerController =
  anim :: "'img AnimationPlayer"
  state :: string
  queue :: "string list"
  player_x :: rat
  player_y :: rat
  speed :: rat

definition PlayerController_new :: "'img AnimationPlayer \<Rightarrow> 'img PlayerController" where
  "PlayerController_new animationPlayer =
     \<lparr>anim = animationPlayer, state = ''idle'', queue = [],
      player_x = 0, player_y = 0, speed = 140\<rparr>"

text \<open>\<^verbatim>\<open>!action\<close>: an absent payload and the empty string are falsy.\<close>

definition falsy :: "string option \<Rightarrow> bool" where
  "falsy action = (case action of None \<Rightarrow> True | Some s \<Rightarrow> s = [])"

text \<open>The handler of \<^verbatim>\<open>"action"\<close> registered in \<^verbatim>\<open>_setupBusHandlers\<close>.\<close>

definition on_action ::
  "'img PlayerController \<Rightarrow> string option \<Rightarrow> 'img PlayerController \<times> bus_event list" where
  "on_action p action =
     (if falsy action then (p, [])
      else
        (case action of
           None \<Rightarrow> (p, [])
         | Some a \<Rightarrow>
             (let p1 = (if length (queue p) > 12 then p\<lparr>queue := tl (queue p)\<rparr> else p);
                  p2 = p1\<lparr>queue := queue p1 @ [a]\<rparr>
              in (p2, [QueueChanged (queue p2)]))))"

definition enterState ::
  "'img PlayerController \<Rightarrow> string \<Rightarrow> 'img PlayerController \<times> bus_event list" where
  "enterState p s =
     (let p1 = p\<lparr>state := s\<rparr>;
          ev = [StateChanged (state p1)]
      in if s = ''idle'' then (p1\<lparr>anim := play (anim p1) ''idle'' True\<rparr>, ev)
         else (p1\<lparr>anim := play (anim p1) s False\<rparr>, ev))"

text \<open>The handler of \<^verbatim>\<open>"reset"\<close> registered in \<^verbatim>\<open>_setupBusHandlers\<close>.\<close>

definition on_reset :: "'img PlayerController \<Rightarrow> 'img PlayerController \<times> bus_event list" where
  "on_reset p =
     (let p1 = p\<lparr>queue := [], player_x := 0, player_y := 0\<rparr>;
          (p2, ev) = enterState p1 ''idle''
      in (p2, ev @ [QueueChanged (queue p2)]))"

text \<open>\<^verbatim>\<open>_consumeNextAction\<close>: \<^verbatim>\<open>shift\<close> on the empty queue returns \<^verbatim>\<open>undefined\<close>.\<close>

definition consumeNextAction ::
  "'img PlayerController \<Rightarrow> string option \<times> 'img PlayerController \<times> bus_event list" where
  "consumeNextAction p =
     (case queue p of
        [] \<Rightarrow> (None, p, [QueueChanged []])
      | a # rest \<Rightarrow> (Some a, p\<lparr>queue := rest\<rparr>, [QueueChanged rest]))"

text \<open>
  The two conditionals at the head of \<^verbatim>\<open>update\<close>. In the second one the queue is not
  empty, so \<^verbatim>\<open>shift\<close> returns an element there.
\<close>

definition consume_finished ::
  "'img PlayerController \<Rightarrow> 'img PlayerController \<times> bus_event list" where
  "consume_finished p =
     (if state p \<noteq> ''idle'' \<and> finished (anim p) then
        (let (next, p1, ev1) = consumeNextAction p;
             (p2, ev2) = enterState p1 (case next of Some a \<Rightarrow> a | None \<Rightarrow> ''idle'')
         in (p2, ev1 @ ev2))
      else (p, []))"

definition consume_idle ::
  "'img PlayerController \<Rightarrow> 'img PlayerController \<times> bus_event list" where
  "consume_idle p =
     (if state p = ''idle'' \<and> length (queue p) > 0 then
        (let (next, p1, ev1) = consumeNextAction p
         in case next of
              Some a \<Rightarrow> (let (p2, ev2) = enterState p1 a in (p2, ev1 @ ev2))
            | None \<Rightarrow> (p1, ev1))
      else (p, []))"

text \<open>Movement and the clamp to the world, the middle of \<^verbatim>\<open>update\<close>.\<close>

definition move_and_clamp ::
  "'img PlayerController \<Rightarrow> rat \<Rightarrow> rat \<Rightarrow> rat \<Rightarrow> 'img PlayerController" where
  "move_and_clamp p dtMs worldWidth worldHeight =
     (let dtSec = dtMs / 1000;
          p1 = (if state p = ''forward'' then p\<lparr>player_x := player_x p + speed p * dtSec\<rparr> else p);
          p2 = (if state p1 = ''backward'' then p1\<lparr>player_x := player_x p1 - speed p1 * dtSec\<rparr> else p1);
          pad = 40;
          p3 = p2\<lparr>player_x := max (- worldWidth / 2 + pad) (min (worldWidth / 2 - pad) (player_x p2))\<rparr>
      in p3\<lparr>player_y := max (- worldHeight / 2 + pad) (min (worldHeight / 2 - pad) (player_y p3))\<rparr>)"

definition PlayerController_update ::
  "'img PlayerController \<Rightarrow> rat \<Rightarrow> rat \<Rightarrow> rat
     \<Rightarrow> ('img PlayerController \<times> bus_event list) option" where
  "PlayerController_update p dtMs worldWidth worldHeight =
     (let (p1, ev1) = consume_finished p;
          (p2, ev2) = consume_idle p1;
          p3 = move_and_clamp p2 dtMs worldWidth worldHeight
      in case AnimationPlayer_update (anim p3) dtMs of
           None \<Rightarrow> None
         | Some a \<Rightarrow> Some (p3\<lparr>anim := a\<rparr>, ev1 @ ev2))"

text \<open>
  What reaches a controller: an event emitted on the bus (it listens to \<^verbatim>\<open>"action"\<close>
  and \<^verbatim>\<open>"reset"\<close> only) or a call of \<^verbatim>\<open>update(dtMs, world)\<close>.
\<close>

definition on_bus ::
  "'img PlayerController \<Rightarrow> bus_event \<Rightarrow> 'img PlayerController \<times> bus_event list" where
  "on_bus p e =
     (case e of
        Action a \<Rightarrow> on_action p a
      | Reset \<Rightarrow> on_reset p
      | QueueChanged q \<Rightarrow> (p, [])
      | StateChanged s \<Rightarrow> (p, []))"

datatype stimulus = Bus bus_event | UpdateCall rat rat rat

fun controller_run ::
  "'img PlayerController \<Rightarrow> stimulus list \<Rightarrow> 'img PlayerController option" where
  "controller_run p [] = Some p"
| "controller_run p (Bus e # rest) = controller_run (fst (on_bus p e)) rest"
| "controller_run p (UpdateCall dtMs w h # rest) =
     (case PlayerController_update p dtMs w h of
        None \<Rightarrow> None
      | Some (p', ev) \<Rightarrow> controller_run p' rest)"

text \<open>The actions of a run of \<^verbatim>\<open>"action"\<close> events only.\<close>

fun deliver_actions :: "'img PlayerController \<Rightarrow> string option list \<Rightarrow> 'img PlayerController" where
  "deliver_actions p [] = p"
| "deliver_actions p (a # rest) = deliver_actions (fst (on_action p a)) rest"

subsection \<open>InputManager\<close>

text \<open>
  The document is the list of the ids of its elements: \<^verbatim>\<open>getElementById(id)\<close> finds an
  element when \<open>id\<close> is in the list. A DOM event is a key press with \<^verbatim>\<open>event.key\<close>, or
  a click on the element with a given id.
\<close>

datatype dom_event = KeyDown string | Click string

definition button_map :: "(string \<times> string) list" where
  "button_map =
     [(''kick'', ''kick''), (''punch'', ''punch''), (''forward'', ''forward''),
      (''backward'', ''backward''), (''block'', ''block'')]"

definition on_keydown :: "string \<Rightarrow> bus_event list" where
  "on_keydown key =
     (if key = ''ArrowUp'' then [Action (Some ''kick'')]
      else if key = ''ArrowDown'' then [Action (Some ''punch'')]
      else if key = ''ArrowRight'' then [Action (Some ''forward'')]
      else if key = ''ArrowLeft'' then [Action (Some ''backward'')]
      else if key = '' '' then [Action (Some ''block'')]
      else [])"

text \<open>
  The click listeners of \<^verbatim>\<open>_setupButtons\<close>: one on each element whose id is a key of
  the map, and one on the element \<^verbatim>\<open>reset\<close>, where the document has them.
\<close>

definition on_click :: "string list \<Rightarrow> string \<Rightarrow> bus_event list" where
  "on_click doc el =
     (if el \<in> set doc then
        (case map_of button_map el of Some a \<Rightarrow> [Action (Some a)] | None \<Rightarrow> [])
        @ (if el = ''reset'' then [Reset] else [])
      else [])"

definition InputManager_emits :: "string list \<Rightarrow> dom_event \<Rightarrow> bus_event list" where
  "InputManager_emits doc ev = (case ev of KeyDown key \<Rightarrow> on_keydown key | Click el \<Rightarrow> on_click doc el)"

definition actions :: "string set" where
  "actions = {''kick'', ''punch'', ''forward'', ''backward'', ''block''}"

definition states :: "string set" where
  "states = insert ''idle'' actions"

subsection \<open>Game\<close>

text \<open>
  \<^verbatim>\<open>this.anim\<close> and \<^verbatim>\<open>this.player.anim\<close> are one object, here the field \<open>anim\<close> of
  \<open>player\<close>. Of the renderer only \<^verbatim>\<open>logicalSize\<close> is kept; its calls are effects.
\<close>

record 'img Game =
  player :: "'img PlayerController"
  fixedDt :: rat
  tick_accumulator :: rat
  lastTs :: rat
  fps :: rat
  fpsFrames :: nat
  fpsTime :: rat
  logicalSize :: rat


definition game_frameDurations :: "string \<rightharpoonup> rat" where
  "game_frameDurations =
     map_of [(''idle'', 120), (''kick'', 90), (''punch'', 90),
             (''forward'', 80), (''backward'', 80), (''block'', 100)]"

definition Game_new :: "(string \<rightharpoonup> 'img list) \<Rightarrow> rat \<Rightarrow> 'img Game" where
  "Game_new anims now =
     \<lparr>player = fst (enterState
                 (PlayerController_new (AnimationPlayer_new anims game_frameDurations)) ''idle''),
      fixedDt = 1000 / 60, tick_accumulator = 0, lastTs = now,
      fps = 0, fpsFrames = 0, fpsTime = 0, logicalSize = 500\<rparr>"






subsection \<open>Boot\<close>

datatype boot_effect =
    Loader load_effect
  | HideLoading
  | StartGame
  | ConsoleError js_error
  | SetLoadingProgress string

definition boot_frames :: "(string \<times> nat list) list" where
  "boot_frames =
     [(''idle'', [1, 2, 3, 4, 5, 6, 7, 8]),
      (''kick'', [1, 2, 3, 4, 5, 6, 7]),
      (''punch'', [1, 2, 3, 4, 5, 6, 7]),
      (''backward'', [1, 2, 3, 4, 5, 6]),
      (''forward'', [1, 2, 3, 4, 5, 6]),
      (''block'', [1, 2, 3, 4, 5, 6])]"

text \<open>
  The body of \<^verbatim>\<open>boot\<close>. The \<^verbatim>\<open>catch\<close> branch receives the rejection of
  \<^verbatim>\<open>loadAnimations\<close>, and the \<^verbatim>\<open>TypeError\<close> of \<^verbatim>\<open>canvas.getContext\<close> on a document
  without the canvas. The text of the percentage written by the progress callback is
  not modelled; the callback's calls are in the loader's effects.
\<close>

definition catch_branch :: "string list \<Rightarrow> js_error \<Rightarrow> boot_effect list" where
  "catch_branch doc e =
     ConsoleError e #
       (if ''loadingProgress'' \<in> set doc
        then [SetLoadingProgress ''Failed to load assets. Check console.''] else [])"

definition boot ::
  "(string \<Rightarrow> 'img option) \<Rightarrow> string list \<Rightarrow> rat \<Rightarrow> 'img Game option \<times> boot_effect list" where
  "boot net doc now =
     (case loadAnimations net (AssetLoader_new ''images'') boot_frames of
        (Inl e, L, tr) \<Rightarrow> (None, map Loader tr @ catch_branch doc e)
      | (Inr anims, L, tr) \<Rightarrow>
          (let hide = (if ''loading'' \<in> set doc then [HideLoading] else [])
           in if ''canvas'' \<in> set doc
              then (Some (Game_new (map_of anims) now), map Loader tr @ hide @ [StartGame])
              else (None, map Loader tr @ hide @ catch_branch doc TypeError)))"

subsection \<open>Predicates of the statements and proofs\<close>


text \<open>
  The URLs that \<^verbatim>\<open>loadAnimations\<close> asks for, in order, and the error of a failed load.
\<close>

definition animation_urls :: "'img AssetLoader \<Rightarrow> (string \<times> nat list) list \<Rightarrow> string list" where
  "animation_urls L framesByAnimation =
     concat (map (\<lambda>(animation, frames). map (frame_url L animation) frames) framesByAnimation)"

definition failure_message :: "string \<Rightarrow> js_error" where
  "failure_message url = Error (''Failed to load image: '' @ url)"

text \<open>
  Three relations for the proofs about the loader. \<open>load_step\<close>: between a loader and a
  later one the base path is the same, the cache has only grown, and it has no entry
  for a URL that was absent and whose load fails. \<open>failed_at\<close>: the error is that of a
  URL of the list, absent from the cache, whose load fails; its request is the last
  effect, and every earlier request succeeded. \<open>all_loaded\<close>: every URL of the list
  is cached or loads, and every request succeeded.
\<close>

definition load_step ::
  "(string \<Rightarrow> 'img option) \<Rightarrow> 'img AssetLoader \<Rightarrow> 'img AssetLoader \<Rightarrow> bool" where
  "load_step net L L' =
     (basePath L' = basePath L
      \<and> (\<forall>x. cache L x \<noteq> None \<longrightarrow> cache L' x \<noteq> None)
      \<and> (\<forall>x. cache L x = None \<longrightarrow> net x = None \<longrightarrow> cache L' x = None))"

definition failed_at ::
  "(string \<Rightarrow> 'img option) \<Rightarrow> 'img AssetLoader \<Rightarrow> string list \<Rightarrow> js_error \<Rightarrow> load_effect list \<Rightarrow> bool" where
  "failed_at net L urls e tr =
     (\<exists>u tr0. e = failure_message u \<and> u \<in> set urls \<and> net u = None \<and> cache L u = None
        \<and> tr = tr0 @ [ImageRequest u] \<and> (\<forall>x. ImageRequest x \<in> set tr0 \<longrightarrow> net x \<noteq> None))"

definition all_loaded ::
  "(string \<Rightarrow> 'img option) \<Rightarrow> 'img AssetLoader \<Rightarrow> string list \<Rightarrow> load_effect list \<Rightarrow> bool" where
  "all_loaded net L urls tr =
     ((\<forall>u \<in> set urls. cache L u \<noteq> None \<or> net u \<noteq> None)
      \<and> (\<forall>x. ImageRequest x \<in> set tr \<longrightarrow> net x \<noteq> None))"

subsection \<open>Concrete objects for the examples\<close>


text \<open>
  A game over two animations, idle with three frames and kick with two, and its
  controller after eight fixed updates of 1000 / 60 ms: the idle animation is on its
  second frame.
\<close>

definition demo_game :: "nat Game" where
  "demo_game = Game_new (map_of [(''idle'', [1, 2, 3]), (''kick'', [4, 5])]) 0"

definition demo_walked :: "nat PlayerController" where
  "demo_walked =
     (player demo_game)\<lparr>anim := (anim (player demo_game))\<lparr>frameIndex := 1, accumulator := 40 / 3\<rparr>\<rparr>"

text \<open>A network on which the third idle frame fails and every other image loads.\<close>

definition demo_net :: "string \<Rightarrow> nat option" where
  "demo_net u = (if u = ''images/idle/3.png'' then None else Some 0)"

section \<open>Properties\<close>

subsection \<open>The frame-advance algorithm\<close>










subsection \<open>The frame index stays within the frame list\<close>

text \<open>
  The loop of \<^verbatim>\<open>update\<close> changes neither the animation table nor the current
  animation, and leaves the frame index below the length of the list. The loop may
  not exit (a frame duration of 0), so the proof is by the induction rule of the
  partial function: it covers every call that returns.
\<close>

lemma update_loop_frame:
  assumes "update_loop n d p = Some p'"
  shows "animations p' = animations p \<and> current p' = current p
         \<and> frameDurations p' = frameDurations p \<and> loop p' = loop p
         \<and> (0 < n \<longrightarrow> frameIndex p < n \<longrightarrow> frameIndex p' < n)"
  using assms
proof (induct rule: update_loop.raw_induct[rotated 1, consumes 1, case_names 1])
  case (1 f n d p p')
  show ?case
  proof (cases "d \<le> accumulator p")
    case False
    with 1(2) show ?thesis by simp
  next
    case True
    let ?p2 = "p\<lparr>accumulator := accumulator p - d, frameIndex := frameIndex p + 1\<rparr>"
    show ?thesis
    proof (cases "n \<le> frameIndex p + 1")
      case wrap: True
      show ?thesis
      proof (cases "loop p")
        case True
        then have "f n d (?p2\<lparr>frameIndex := 0\<rparr>) = Some p'"
          using 1(2) \<open>d \<le> accumulator p\<close> wrap by (simp add: Let_def)
        from 1(1)[OF this] show ?thesis by simp
      next
        case False
        then have "p' = ?p2\<lparr>frameIndex := n - 1, finished := True\<rparr>"
          using 1(2) \<open>d \<le> accumulator p\<close> wrap by (simp add: Let_def)
        then show ?thesis by simp
      qed
    next
      case False
      then have "f n d ?p2 = Some p'"
        using 1(2) \<open>d \<le> accumulator p\<close> by (simp add: Let_def)
      from 1(1)[OF this] False show ?thesis by simp
    qed
  qed
qed







subsection \<open>The action queue\<close>

text \<open>Unfolding the definitions of the concrete objects, and of the methods on them.\<close>

lemmas demo_defs =
  demo_game_def demo_walked_def Game_new_def PlayerController_new_def AnimationPlayer_new_def
  game_frameDurations_def enterState_def play_def

lemmas run_defs =
  PlayerController_update_def consume_finished_def consume_idle_def consumeNextAction_def
  move_and_clamp_def AnimationPlayer_update_def frameDuration_def update_loop.simps
  on_bus_def on_action_def on_reset_def falsy_def Let_def

lemma on_action_queue:
  "queue (fst (on_action p action)) =
     (case action of
        None \<Rightarrow> queue p
      | Some a \<Rightarrow> if a = [] then queue p
                  else (if length (queue p) > 12 then tl (queue p) else queue p) @ [a])"
  by (simp add: on_action_def falsy_def Let_def split: option.splits)

lemma on_action_cap: "length (queue p) \<le> 13 \<Longrightarrow> length (queue (fst (on_action p action))) \<le> 13"
  by (auto simp: on_action_queue split: option.splits)

lemma deliver_actions_cap:
  "length (queue p) \<le> 13 \<Longrightarrow> length (queue (deliver_actions p acts)) \<le> 13"
  by (induction acts arbitrary: p) (simp_all add: on_action_cap)

text \<open>
  C2. From the constructor's empty queue, after any sequence of \<^verbatim>\<open>"action"\<close> events
  the queue holds at most 13 actions; the list \<open>acts\<close> is arbitrary, so this holds after
  each event of a sequence. The handler, on a non-empty action, drops the oldest
  element when the queue is longer than 12 and then appends the new action.
\<close>

theorem queue_cap:
  "length (queue (deliver_actions (PlayerController_new an) acts)) \<le> 13
   \<and> queue (fst (on_action p (Some (c # cs)))) =
       (if length (queue p) > 12 then tl (queue p) else queue p) @ [c # cs]"
  by (simp add: deliver_actions_cap PlayerController_new_def on_action_queue)

subsection \<open>The state machine\<close>

lemma enterState_fields:
  "state (fst (enterState p s)) = s"
  "queue (fst (enterState p s)) = queue p"
  "player_x (fst (enterState p s)) = player_x p"
  "player_y (fst (enterState p s)) = player_y p"
  "speed (fst (enterState p s)) = speed p"
  "anim (fst (enterState p s)) = play (anim p) s (s = ''idle'')"
  "snd (enterState p s) = [StateChanged s]"
  by (simp_all add: enterState_def Let_def)

lemma consume_finished_eq:
  "consume_finished p =
     (if state p \<noteq> ''idle'' \<and> finished (anim p) then
        (case queue p of
           [] \<Rightarrow> (p\<lparr>state := ''idle'', anim := play (anim p) ''idle'' True\<rparr>,
                  [QueueChanged [], StateChanged ''idle''])
         | a # rest \<Rightarrow> (p\<lparr>queue := rest, state := a, anim := play (anim p) a (a = ''idle'')\<rparr>,
                        [QueueChanged rest, StateChanged a]))
      else (p, []))"
  by (simp add: consume_finished_def consumeNextAction_def enterState_def Let_def
      split: list.splits)

lemma consume_idle_eq:
  "consume_idle p =
     (if state p = ''idle'' then
        (case queue p of
           [] \<Rightarrow> (p, [])
         | a # rest \<Rightarrow> (p\<lparr>queue := rest, state := a, anim := play (anim p) a (a = ''idle'')\<rparr>,
                        [QueueChanged rest, StateChanged a]))
      else (p, []))"
  by (simp add: consume_idle_def consumeNextAction_def enterState_def Let_def
      split: list.splits)

lemma move_and_clamp_fields:
  "state (move_and_clamp p dtMs w h) = state p"
  "queue (move_and_clamp p dtMs w h) = queue p"
  "anim (move_and_clamp p dtMs w h) = anim p"
  "speed (move_and_clamp p dtMs w h) = speed p"
  by (simp_all add: move_and_clamp_def Let_def)





subsection \<open>The six states\<close>

lemma on_bus_six:
  assumes "\<forall>a. e = Action a \<longrightarrow> a \<in> Some ` actions"
    and "state p \<in> states" "set (queue p) \<subseteq> actions"
  shows "state (fst (on_bus p e)) \<in> states \<and> set (queue (fst (on_bus p e))) \<subseteq> actions"
proof (cases e)
  case (Action a)
  then obtain s where a: "a = Some s" "s \<in> actions" using assms(1) by auto
  have "set (tl (queue p)) \<subseteq> actions"
    using assms(3) by (cases "queue p") auto
  moreover have "state (fst (on_action p a)) = state p"
    by (simp add: on_action_def Let_def split: option.splits)
  ultimately show ?thesis
    using Action a assms(2,3) by (simp add: on_bus_def on_action_queue)
next
  case Reset
  then show ?thesis
    by (simp add: on_bus_def on_reset_def enterState_def Let_def states_def)
next
  case (QueueChanged q)
  then show ?thesis using assms(2,3) by (simp add: on_bus_def)
next
  case (StateChanged s)
  then show ?thesis using assms(2,3) by (simp add: on_bus_def)
qed

lemma update_six:
  assumes "PlayerController_update p dtMs w h = Some (p', ev)"
    and "state p \<in> states" "set (queue p) \<subseteq> actions"
  shows "state p' \<in> states \<and> set (queue p') \<subseteq> actions"
proof -
  obtain p1 ev1 where c1: "consume_finished p = (p1, ev1)" by (cases "consume_finished p")
  obtain p2 ev2 where c2: "consume_idle p1 = (p2, ev2)" by (cases "consume_idle p1")
  have i1: "state p1 \<in> states \<and> set (queue p1) \<subseteq> actions"
    using c1 assms(2,3)
    by (auto simp: consume_finished_eq states_def split: if_splits list.splits)
  have i2: "state p2 \<in> states \<and> set (queue p2) \<subseteq> actions"
    using c2 i1
    by (auto simp: consume_idle_eq states_def split: if_splits list.splits)
  have "state p' = state p2 \<and> queue p' = queue p2"
    using assms(1) c1 c2
    by (auto simp: PlayerController_update_def move_and_clamp_fields split: option.splits)
  with i2 show ?thesis by simp
qed

lemma controller_run_six:
  assumes "\<forall>a. Bus (Action a) \<in> set stims \<longrightarrow> a \<in> Some ` actions"
    and "state p \<in> states" "set (queue p) \<subseteq> actions"
    and "controller_run p stims = Some p'"
  shows "state p' \<in> states \<and> set (queue p') \<subseteq> actions"
  using assms
proof (induction p stims rule: controller_run.induct)
  case (1 p)
  then show ?case by simp
next
  case (2 p e rest)
  have "state (fst (on_bus p e)) \<in> states \<and> set (queue (fst (on_bus p e))) \<subseteq> actions"
    using on_bus_six[of e p] 2(2,3,4) by auto
  then show ?case using 2(1)[of ] 2(2,5) by simp
next
  case (3 p dtMs w h rest)
  then obtain p1 ev where u: "PlayerController_update p dtMs w h = Some (p1, ev)"
    by (auto split: option.splits)
  from update_six[OF u 3(3,4)] 3(1)[OF u refl] 3(2,5) u show ?case by simp
qed

text \<open>
  C4. When every \<^verbatim>\<open>"action"\<close> payload is one of kick, punch, forward, backward and
  block, the state of the controller is one of the six states after the constructor,
  after the initial \<^verbatim>\<open>_enterState("idle")\<close> of the game, and after every sequence of bus
  events and returning \<^verbatim>\<open>update\<close> calls.
\<close>

theorem state_one_of_six:
  assumes "\<forall>a. Bus (Action a) \<in> set stims \<longrightarrow> a \<in> Some ` actions"
    and "p0 = PlayerController_new an \<or> p0 = player (Game_new anims now)"
    and "controller_run p0 stims = Some p"
  shows "state p \<in> {''idle'', ''kick'', ''punch'', ''forward'', ''backward'', ''block''}"
proof -
  have "state p0 \<in> states \<and> set (queue p0) \<subseteq> actions"
    using assms(2)
    by (auto simp: PlayerController_new_def Game_new_def enterState_def Let_def states_def)
  then have "state p \<in> states"
    using controller_run_six[OF assms(1) _ _ assms(3)] by simp
  then show ?thesis by (simp add: states_def actions_def)
qed

theorem state_one_of_six_witness:
  "controller_run (player demo_game) [Bus (Action (Some ''kick'')), UpdateCall 100 500 500] =
     Some ((player demo_game)
             \<lparr>anim := (anim (player demo_game))
                \<lparr>current := ''kick'', loop := False, frameIndex := 1, accumulator := 10\<rparr>,
              state := ''kick''\<rparr>)
   \<and> state ((player demo_game)
             \<lparr>anim := (anim (player demo_game))
                \<lparr>current := ''kick'', loop := False, frameIndex := 1, accumulator := 10\<rparr>,
              state := ''kick''\<rparr>)
       \<in> {''idle'', ''kick'', ''punch'', ''forward'', ''backward'', ''block''}"
proof -
  have r: "controller_run (player demo_game) [Bus (Action (Some ''kick'')), UpdateCall 100 500 500] =
     Some ((player demo_game)
             \<lparr>anim := (anim (player demo_game))
                \<lparr>current := ''kick'', loop := False, frameIndex := 1, accumulator := 10\<rparr>,
              state := ''kick''\<rparr>)"
    by (simp add: demo_defs run_defs)
  have a: "\<forall>a. Bus (Action a) \<in> set [Bus (Action (Some ''kick'')), UpdateCall 100 500 500]
             \<longrightarrow> a \<in> Some ` actions"
    by (simp add: actions_def)
  have i: "player demo_game = PlayerController_new an \<or> player demo_game = player (Game_new (map_of [(''idle'', [1, 2, 3]), (''kick'', [4, 5])]) 0)" for an
    by (simp add: demo_game_def)
  from state_one_of_six[OF a i r] r show ?thesis by simp
qed

subsection \<open>Reset\<close>

text \<open>
  C9 as stated fails: \<^verbatim>\<open>play\<close> returns early when the idle animation is already the
  current one, looping and unfinished, so a reset in that state does not go back to
  frame 0. After eight fixed updates of the game the idle animation is on frame 1,
  with 40 / 3 ms accumulated, and a reset leaves both.
\<close>

theorem reset_restarts_counterexample:
  "controller_run (player demo_game)
     [UpdateCall (1000 / 60) 500 500, UpdateCall (1000 / 60) 500 500,
      UpdateCall (1000 / 60) 500 500, UpdateCall (1000 / 60) 500 500,
      UpdateCall (1000 / 60) 500 500, UpdateCall (1000 / 60) 500 500,
      UpdateCall (1000 / 60) 500 500, UpdateCall (1000 / 60) 500 500] = Some demo_walked
   \<and> frameIndex (anim (fst (on_reset demo_walked))) = 1
   \<and> accumulator (anim (fst (on_reset demo_walked))) = 40 / 3"
  by (simp add: demo_defs run_defs)

text \<open>
  No method changes the animation table, and the table that \<^verbatim>\<open>boot\<close> hands to the game
  has the animations of its frame table, idle first: every controller state reached
  in a booted game has an idle animation.
\<close>

lemma play_animations: "animations (play p s l) = animations p"
  by (simp add: play_def)

lemma on_bus_animations: "animations (anim (fst (on_bus p e))) = animations (anim p)"
  by (cases e)
    (simp_all add: on_bus_def on_action_def on_reset_def enterState_def play_animations
      Let_def split: option.splits)

lemma AnimationPlayer_update_animations:
  assumes "AnimationPlayer_update p dtMs = Some p'"
  shows "animations p' = animations p"
proof (cases "animations p (current p)")
  case None
  with assms show ?thesis by (simp add: AnimationPlayer_update_def)
next
  case (Some frames)
  show ?thesis
  proof (cases "frames = []")
    case True
    with assms Some show ?thesis by (simp add: AnimationPlayer_update_def)
  next
    case False
    then have "update_loop (length frames) (frameDuration p)
                 (p\<lparr>accumulator := accumulator p + dtMs\<rparr>) = Some p'"
      using assms Some by (simp add: AnimationPlayer_update_def)
    from update_loop_frame[OF this] show ?thesis by simp
  qed
qed

lemma PlayerController_update_animations:
  assumes "PlayerController_update p dtMs w h = Some (p', ev)"
  shows "animations (anim p') = animations (anim p)"
proof -
  obtain p1 ev1 where c1: "consume_finished p = (p1, ev1)" by (cases "consume_finished p")
  obtain p2 ev2 where c2: "consume_idle p1 = (p2, ev2)" by (cases "consume_idle p1")
  have a1: "animations (anim p1) = animations (anim p)"
    using c1 by (auto simp: consume_finished_eq play_animations split: if_splits list.splits)
  have a2: "animations (anim p2) = animations (anim p1)"
    using c2 by (auto simp: consume_idle_eq play_animations split: if_splits list.splits)
  obtain a where a: "AnimationPlayer_update (anim (move_and_clamp p2 dtMs w h)) dtMs = Some a"
    "p' = (move_and_clamp p2 dtMs w h)\<lparr>anim := a\<rparr>"
    using assms c1 c2 by (auto simp: PlayerController_update_def Let_def split: option.splits)
  from AnimationPlayer_update_animations[OF a(1)] a(2) a1 a2
  show ?thesis by (simp add: move_and_clamp_fields)
qed

lemma controller_run_animations:
  "controller_run p stims = Some p' \<Longrightarrow> animations (anim p') = animations (anim p)"
proof (induction p stims rule: controller_run.induct)
  case (1 p)
  then show ?case by simp
next
  case (2 p e rest)
  then show ?case by (simp add: on_bus_animations)
next
  case (3 p dtMs w h rest)
  then obtain p1 ev where u: "PlayerController_update p dtMs w h = Some (p1, ev)"
    by (auto split: option.splits)
  from 3(1)[OF u refl] 3(2) u PlayerController_update_animations[OF u]
  show ?case by simp
qed

lemma loadFrames_length:
  "loadFrames net a tot fs L nd = (Inr images, L', nd', tr) \<Longrightarrow> length images = length fs"
proof (induction fs arbitrary: L nd images L' nd' tr)
  case Nil
  then show ?case by simp
next
  case (Cons f fs)
  then show ?case
    by (auto split: prod.splits sum.splits)
qed

lemma loadAnimationsLoop_keys:
  "loadAnimationsLoop net tot fba L nd = (Inr result, L', tr) \<Longrightarrow>
     map (\<lambda>(a, images). (a, length images)) result = map (\<lambda>(a, fs). (a, length fs)) fba"
proof (induction fba arbitrary: L nd result L' tr)
  case Nil
  then show ?case by simp
next
  case (Cons af rest)
  obtain a fs where af: "af = (a, fs)" by (cases af)
  show ?case
    using Cons.prems Cons.IH af
    by (auto split: prod.splits sum.splits dest: loadFrames_length)
qed

lemma booted_game_has_idle:
  assumes "boot net doc now = (Some g, effs)" "controller_run (player g) stims = Some p"
  shows "\<exists>frames. animations (anim p) ''idle'' = Some frames \<and> length frames = 8"
proof -
  obtain r L tr where la: "loadAnimations net (AssetLoader_new ''images'') boot_frames = (r, L, tr)"
    by (cases "loadAnimations net (AssetLoader_new ''images'') boot_frames") auto
  obtain anims where r: "r = Inr anims" "g = Game_new (map_of anims) now"
    using assms(1) la by (cases r) (auto simp: boot_def Let_def split: if_splits)
  have "map (\<lambda>(a, images). (a, length images)) anims = map (\<lambda>(a, fs). (a, length fs)) boot_frames"
    using la r(1) loadAnimationsLoop_keys[of net _ boot_frames "AssetLoader_new ''images''" 0 anims L tr]
    by (simp add: loadAnimations_def Let_def)
  then obtain images rest where "anims = (''idle'', images) # rest" "length images = 8"
    by (cases anims) (auto simp: boot_frames_def)
  then have "animations (anim (player g)) ''idle'' = Some images"
    using r(2)
    by (simp add: Game_new_def enterState_def PlayerController_new_def AnimationPlayer_new_def
        play_animations Let_def)
  with controller_run_animations[OF assms(2)] \<open>length images = 8\<close> show ?thesis by simp
qed

text \<open>
  C9, amended. In a controller whose animation table has an idle animation, as in
  every state reached in a booted game, the handler of \<^verbatim>\<open>"reset"\<close> empties the queue, sets \<open>x\<close> and \<open>y\<close> to 0, sets the state to
  idle and leaves the idle animation current, looping and unfinished; the animation
  player is unchanged when idle was already current, looping and unfinished, and is
  otherwise restarted at frame 0 with an empty accumulator. The handler emits
  \<^verbatim>\<open>"stateChanged"\<close> with idle and then \<^verbatim>\<open>"queueChanged"\<close> with the empty queue.
\<close>

theorem reset_establishes:
  assumes "animations (anim p) ''idle'' = Some frames"
  shows "queue (fst (on_reset p)) = []
       \<and> player_x (fst (on_reset p)) = 0 \<and> player_y (fst (on_reset p)) = 0
       \<and> state (fst (on_reset p)) = ''idle''
       \<and> current (anim (fst (on_reset p))) = ''idle''
       \<and> loop (anim (fst (on_reset p)))
       \<and> \<not> finished (anim (fst (on_reset p)))
       \<and> (if current (anim p) = ''idle'' \<and> loop (anim p) \<and> \<not> finished (anim p)
          then anim (fst (on_reset p)) = anim p
          else frameIndex (anim (fst (on_reset p))) = 0
               \<and> accumulator (anim (fst (on_reset p))) = 0)
       \<and> snd (on_reset p) = [StateChanged ''idle'', QueueChanged []]"
  using assms by (simp add: on_reset_def enterState_def play_def Let_def)

theorem reset_establishes_witness:
  "animations (anim demo_walked) ''idle'' = Some [1, 2, 3]
   \<and> queue (fst (on_reset (demo_walked\<lparr>queue := [''kick'']\<rparr>))) = []
   \<and> frameIndex (anim (fst (on_reset (demo_walked\<lparr>queue := [''kick'']\<rparr>)))) = 1
   \<and> snd (on_reset (demo_walked\<lparr>queue := [''kick'']\<rparr>)) = [StateChanged ''idle'', QueueChanged []]"
  using reset_establishes[of "demo_walked\<lparr>queue := [''kick'']\<rparr>" "[1, 2, 3]"]
  by (simp add: demo_defs)

subsection \<open>What the input manager emits\<close>

text \<open>
  C6 as stated fails: the click listener on the element \<^verbatim>\<open>reset\<close>, installed by
  \<^verbatim>\<open>_setupButtons\<close>, emits a \<^verbatim>\<open>"reset"\<close> event, which is not an \<^verbatim>\<open>"action"\<close> event.
\<close>

theorem input_emits_reset_counterexample:
  "InputManager_emits [''reset''] (Click ''reset'') = [Reset]"
  by (simp add: InputManager_emits_def on_click_def button_map_def)

text \<open>
  C6, amended. Every event the input manager emits is an \<^verbatim>\<open>"action"\<close> event whose
  payload is one of kick, punch, forward, backward and block, or it is the
  \<^verbatim>\<open>"reset"\<close> event of a click on the element \<^verbatim>\<open>reset\<close>; a key press emits action
  events only.
\<close>

theorem input_emits:
  assumes "e \<in> set (InputManager_emits doc ev)"
  shows "(\<exists>a \<in> actions. e = Action (Some a)) \<or> (e = Reset \<and> ev = Click ''reset'')"
proof (cases ev)
  case (KeyDown key)
  then show ?thesis
    using assms by (auto simp: InputManager_emits_def on_keydown_def actions_def split: if_splits)
next
  case (Click el)
  then show ?thesis
    using assms
    by (auto simp: InputManager_emits_def on_click_def button_map_def actions_def
        split: if_splits option.splits)
qed

theorem input_emits_witness:
  "Action (Some ''block'') \<in> set (InputManager_emits [] (KeyDown '' ''))
   \<and> ''block'' \<in> actions
   \<and> Reset \<in> set (InputManager_emits [''kick'', ''reset''] (Click ''reset''))
   \<and> Action (Some ''kick'') \<in> set (InputManager_emits [''kick'', ''reset''] (Click ''kick''))"
  using input_emits[of "Action (Some ''block'')" "[]" "KeyDown '' ''"]
    input_emits[of Reset "[''kick'', ''reset'']" "Click ''reset''"]
  by (simp add: InputManager_emits_def on_keydown_def on_click_def button_map_def actions_def)

subsection \<open>The image cache\<close>

text \<open>
  C8. After \<^verbatim>\<open>loadImage(url)\<close> has resolved with an image, the cache holds that image
  under \<open>url\<close> and is unchanged at every other key; a further \<^verbatim>\<open>loadImage(url)\<close>, whatever
  the network would answer then, resolves with the same image, leaves the loader as it
  is and requests nothing, so that the two calls in sequence give the result, the
  loader and the requests of the first call alone.
\<close>

theorem loadImage_cached:
  assumes "loadImage net L url = (Inr img, L1, tr1)"
  shows "cache L1 url = Some img
       \<and> (\<forall>u. u \<noteq> url \<longrightarrow> cache L1 u = cache L u)
       \<and> loadImage net2 L1 url = (Inr img, L1, [])
       \<and> (case loadImage net L url of
            (r, L', tr) \<Rightarrow>
              (case loadImage net2 L' url of
                 (r2, L2, tr2) \<Rightarrow> (r2, L2, tr @ tr2))) = loadImage net L url"
  using assms by (auto simp: loadImage_def split: option.splits)

theorem loadImage_cached_witness:
  "loadImage (\<lambda>u. Some (7::nat)) (AssetLoader_new ''images'') ''images/idle/1.png''
     = (Inr 7, (AssetLoader_new ''images'')\<lparr>cache := [''images/idle/1.png'' \<mapsto> 7]\<rparr>,
        [ImageRequest ''images/idle/1.png''])
   \<and> loadImage (\<lambda>u. None) ((AssetLoader_new ''images'')\<lparr>cache := [''images/idle/1.png'' \<mapsto> 7]\<rparr>)
       ''images/idle/1.png''
     = (Inr (7::nat), (AssetLoader_new ''images'')\<lparr>cache := [''images/idle/1.png'' \<mapsto> 7]\<rparr>, [])"
proof -
  have r: "loadImage (\<lambda>u. Some (7::nat)) (AssetLoader_new ''images'') ''images/idle/1.png''
     = (Inr 7, (AssetLoader_new ''images'')\<lparr>cache := [''images/idle/1.png'' \<mapsto> 7]\<rparr>,
        [ImageRequest ''images/idle/1.png''])"
    by (simp add: loadImage_def AssetLoader_new_def)
  from loadImage_cached[OF r, of "\<lambda>u. None"] r show ?thesis by simp
qed

subsection \<open>A failed image load\<close>

lemma load_step_refl: "load_step net L L"
  by (simp add: load_step_def)

lemma load_step_trans: "load_step net L L1 \<Longrightarrow> load_step net L1 L2 \<Longrightarrow> load_step net L L2"
  by (auto simp: load_step_def)

lemma frame_url_step: "load_step net L L1 \<Longrightarrow> frame_url L1 = frame_url L"
  by (auto simp: load_step_def frame_url_def fun_eq_iff)

lemma loadImage_step:
  assumes "loadImage net L u = (r, L', tr)"
  shows "load_step net L L'"
    and "\<And>e. r = Inl e \<Longrightarrow> failed_at net L [u] e tr"
    and "\<And>img. r = Inr img \<Longrightarrow> all_loaded net L [u] tr"
  using assms
  by (auto simp: loadImage_def load_step_def failed_at_def all_loaded_def failure_message_def
      split: option.splits)

lemma failed_at_later:
  assumes "load_step net L L1" "failed_at net L1 urls e tr"
    and "\<forall>x. ImageRequest x \<in> set pre \<longrightarrow> net x \<noteq> None"
  shows "failed_at net L (urls0 @ urls) e (pre @ tr)"
proof -
  from assms(2) obtain u tr0 where u: "e = failure_message u" "u \<in> set urls" "net u = None"
    "cache L1 u = None" "tr = tr0 @ [ImageRequest u]"
    "\<forall>x. ImageRequest x \<in> set tr0 \<longrightarrow> net x \<noteq> None"
    by (auto simp: failed_at_def)
  have "cache L u \<noteq> None \<longrightarrow> cache L1 u \<noteq> None"
    using assms(1) by (simp add: load_step_def)
  then have "cache L u = None" using u(4) by auto
  moreover have "\<forall>x. ImageRequest x \<in> set (pre @ tr0) \<longrightarrow> net x \<noteq> None"
    using assms(3) u(6) by auto
  ultimately show ?thesis
    unfolding failed_at_def using u(1,2,3,5)
    by (intro exI[of _ u] exI[of _ "pre @ tr0"]) simp
qed

lemma failed_at_first:
  "failed_at net L urls e tr \<Longrightarrow> failed_at net L (urls @ urls1) e tr"
  by (auto simp: failed_at_def)

lemma all_loaded_append:
  assumes "all_loaded net L urls tr" "load_step net L L1" "all_loaded net L1 urls1 tr1"
  shows "all_loaded net L (urls @ urls1) (tr @ tr1)"
proof -
  have "cache L u \<noteq> None \<or> net u \<noteq> None" if "u \<in> set urls1" for u
  proof (cases "net u")
    case None
    then have c: "cache L1 u \<noteq> None" using assms(3) that by (auto simp: all_loaded_def)
    have "cache L u = None \<longrightarrow> net u = None \<longrightarrow> cache L1 u = None"
      using assms(2) by (simp add: load_step_def)
    with None c show ?thesis by auto
  qed simp
  then show ?thesis using assms(1,3) by (auto simp: all_loaded_def)
qed

lemma all_loaded_requests: "all_loaded net L urls tr \<Longrightarrow> \<forall>x. ImageRequest x \<in> set tr \<longrightarrow> net x \<noteq> None"
  by (simp add: all_loaded_def)

lemma all_loaded_progress:
  "all_loaded net L urls tr \<Longrightarrow> all_loaded net L urls (tr @ [Progress a b])"
  by (auto simp: all_loaded_def)

lemma loadFrames_result:
  assumes "loadFrames net a tot fs L nd = (r, L', nd', tr)"
  shows "load_step net L L'
       \<and> (case r of
            Inl e \<Rightarrow> failed_at net L (map (frame_url L a) fs) e tr
          | Inr images \<Rightarrow> all_loaded net L (map (frame_url L a) fs) tr)"
  using assms
proof (induction fs arbitrary: L nd r L' nd' tr)
  case Nil
  then show ?case by (auto simp: load_step_refl all_loaded_def)
next
  case (Cons f fs)
  obtain r1 L1 tr1 where li: "loadImage net L (frame_url L a f) = (r1, L1, tr1)"
    by (cases "loadImage net L (frame_url L a f)") auto
  note s1 = loadImage_step[OF li]
  show ?case
  proof (cases r1)
    case (Inl e)
    then have "r = Inl e" "L' = L1" "tr = tr1" using Cons.prems li by auto
    moreover have "failed_at net L ([frame_url L a f] @ map (frame_url L a) fs) e tr1"
      using failed_at_first[OF s1(2)[OF Inl]] .
    ultimately show ?thesis using s1(1) by simp
  next
    case (Inr img)
    obtain r2 L2 nd2 tr2 where lf: "loadFrames net a tot fs L1 (nd + 1) = (r2, L2, nd2, tr2)"
      by (cases "loadFrames net a tot fs L1 (nd + 1)") auto
    from Cons.IH[OF lf] have ih: "load_step net L1 L2"
      "case r2 of Inl e \<Rightarrow> failed_at net L1 (map (frame_url L1 a) fs) e tr2
               | Inr images \<Rightarrow> all_loaded net L1 (map (frame_url L1 a) fs) tr2"
      by auto
    have fu: "frame_url L1 = frame_url L" using frame_url_step[OF s1(1)] .
    have al: "all_loaded net L [frame_url L a f] (tr1 @ [Progress (nd + 1) tot])"
      using all_loaded_progress[OF s1(3)[OF Inr]] .
    have st: "load_step net L L2" using load_step_trans[OF s1(1) ih(1)] .
    show ?thesis
    proof (cases r2)
      case e: (Inl e)
      then have res: "r = Inl e" "L' = L2" "tr = (tr1 @ [Progress (nd + 1) tot]) @ tr2"
        using Cons.prems li lf Inr by auto
      have f2: "failed_at net L1 (map (frame_url L a) fs) e tr2"
        using ih(2) e fu by simp
      have "failed_at net L ([frame_url L a f] @ map (frame_url L a) fs) e
              ((tr1 @ [Progress (nd + 1) tot]) @ tr2)"
        using failed_at_later[OF s1(1) f2 all_loaded_requests[OF al]] .
      then show ?thesis using res st by simp
    next
      case i: (Inr images)
      then have res: "r = Inr (img # images)" "L' = L2" "tr = (tr1 @ [Progress (nd + 1) tot]) @ tr2"
        using Cons.prems li lf Inr by auto
      have "all_loaded net L ([frame_url L a f] @ map (frame_url L a) fs)
              ((tr1 @ [Progress (nd + 1) tot]) @ tr2)"
        using all_loaded_append[OF al s1(1)] ih(2) i fu by simp
      then show ?thesis using res st by simp
    qed
  qed
qed

lemma animation_urls_Cons:
  "animation_urls L ((a, fs) # rest) = map (frame_url L a) fs @ animation_urls L rest"
  by (simp add: animation_urls_def)

lemma animation_urls_step: "load_step net L L1 \<Longrightarrow> animation_urls L1 = animation_urls L"
  by (simp add: animation_urls_def frame_url_step fun_eq_iff)

lemma loadAnimationsLoop_result:
  assumes "loadAnimationsLoop net tot fba L nd = (r, L', tr)"
  shows "load_step net L L'
       \<and> (case r of
            Inl e \<Rightarrow> failed_at net L (animation_urls L fba) e tr
          | Inr result \<Rightarrow> all_loaded net L (animation_urls L fba) tr)"
  using assms
proof (induction fba arbitrary: L nd r L' tr)
  case Nil
  then show ?case by (auto simp: load_step_refl all_loaded_def animation_urls_def)
next
  case (Cons af rest)
  obtain a fs where af: "af = (a, fs)" by (cases af)
  obtain r1 L1 nd1 tr1 where lf: "loadFrames net a tot fs L nd = (r1, L1, nd1, tr1)"
    by (cases "loadFrames net a tot fs L nd") auto
  from loadFrames_result[OF lf] have s1: "load_step net L L1"
    "case r1 of Inl e \<Rightarrow> failed_at net L (map (frame_url L a) fs) e tr1
             | Inr images \<Rightarrow> all_loaded net L (map (frame_url L a) fs) tr1"
    by auto
  show ?case
  proof (cases r1)
    case (Inl e)
    then have "r = Inl e" "L' = L1" "tr = tr1" using Cons.prems lf af by auto
    then show ?thesis
      using s1 Inl af failed_at_first[of net L "map (frame_url L a) fs" e tr1]
      by (simp add: animation_urls_Cons)
  next
    case (Inr images)
    obtain r2 L2 tr2 where la: "loadAnimationsLoop net tot rest L1 nd1 = (r2, L2, tr2)"
      by (cases "loadAnimationsLoop net tot rest L1 nd1") auto
    from Cons.IH[OF la] have ih: "load_step net L1 L2"
      "case r2 of Inl e \<Rightarrow> failed_at net L1 (animation_urls L1 rest) e tr2
               | Inr result \<Rightarrow> all_loaded net L1 (animation_urls L1 rest) tr2"
      by auto
    have au: "animation_urls L1 = animation_urls L" using animation_urls_step[OF s1(1)] .
    have al: "all_loaded net L (map (frame_url L a) fs) tr1" using s1(2) Inr by simp
    have st: "load_step net L L2" using load_step_trans[OF s1(1) ih(1)] .
    show ?thesis
    proof (cases r2)
      case e: (Inl e)
      then have res: "r = Inl e" "L' = L2" "tr = tr1 @ tr2"
        using Cons.prems lf la Inr af by auto
      have f2: "failed_at net L1 (animation_urls L rest) e tr2"
        using ih(2) e au by simp
      have "failed_at net L (map (frame_url L a) fs @ animation_urls L rest) e (tr1 @ tr2)"
        using failed_at_later[OF s1(1) f2 all_loaded_requests[OF al]] .
      then show ?thesis using res st af by (simp add: animation_urls_Cons)
    next
      case i: (Inr result)
      then have res: "r = Inr ((a, images) # result)" "L' = L2" "tr = tr1 @ tr2"
        using Cons.prems lf la Inr af by auto
      have "all_loaded net L (map (frame_url L a) fs @ animation_urls L rest) (tr1 @ tr2)"
        using all_loaded_append[OF al s1(1)] ih(2) i au by simp
      then show ?thesis using res st af by (simp add: animation_urls_Cons)
    qed
  qed
qed

lemma loadAnimations_fails:
  assumes "url \<in> set (animation_urls L fba)" "cache L url = None" "net url = None"
  shows "\<exists>u L' tr0. loadAnimations net L fba = (Inl (failure_message u), L', tr0 @ [ImageRequest u])
           \<and> u \<in> set (animation_urls L fba) \<and> net u = None \<and> cache L' u = None
           \<and> ImageRequest u \<notin> set tr0"
proof -
  obtain r L' tr where la: "loadAnimations net L fba = (r, L', tr)"
    by (cases "loadAnimations net L fba") auto
  then have "loadAnimationsLoop net
               (sum_list (map (\<lambda>(a, frames). length frames) fba)) fba L 0 = (r, L', tr)"
    by (simp add: loadAnimations_def Let_def)
  from loadAnimationsLoop_result[OF this]
  have res: "load_step net L L'"
    "case r of Inl e \<Rightarrow> failed_at net L (animation_urls L fba) e tr
            | Inr result \<Rightarrow> all_loaded net L (animation_urls L fba) tr"
    by simp_all
  show ?thesis
  proof (cases r)
    case (Inr result)
    then have "all_loaded net L (animation_urls L fba) tr" using res(2) by simp
    then have "cache L url \<noteq> None \<or> net url \<noteq> None"
      using assms(1) by (simp add: all_loaded_def)
    then show ?thesis using assms(2,3) by simp
  next
    case (Inl e)
    then have "failed_at net L (animation_urls L fba) e tr" using res(2) by simp
    then obtain u tr0 where u: "e = failure_message u" "u \<in> set (animation_urls L fba)"
      "net u = None" "cache L u = None" "tr = tr0 @ [ImageRequest u]"
      "\<forall>x. ImageRequest x \<in> set tr0 \<longrightarrow> net x \<noteq> None"
      by (auto simp: failed_at_def)
    have "cache L u = None \<longrightarrow> net u = None \<longrightarrow> cache L' u = None"
      using res(1) by (simp add: load_step_def)
    then have c: "cache L' u = None" using u(3,4) by simp
    have n: "ImageRequest u \<notin> set tr0" using u(3,6) by blast
    have "loadAnimations net L fba = (Inl (failure_message u), L', tr0 @ [ImageRequest u])"
      using la Inl u(1,5) by simp
    with u(2,3) c n show ?thesis by blast
  qed
qed


text \<open>
  C7. When the load of \<open>url\<close> fails: \<^verbatim>\<open>loadImage(url)\<close> on a cache without \<open>url\<close>
  rejects with the error \<^verbatim>\<open>Failed to load image: <url>\<close>, leaves the loader (and its
  cache) as it was and has made one request; \<^verbatim>\<open>loadAnimations\<close>, when \<open>url\<close> is among
  its URLs and not cached, rejects with that error for the URL \<open>u\<close> whose load failed
  first, \<open>u\<close> is not in the cache afterwards, and the request for \<open>u\<close> is the last
  effect and the only request for \<open>u\<close>; \<^verbatim>\<open>boot\<close> then starts no game, does not hide the
  loading element, logs the error to the console and, in a document that has the
  element \<^verbatim>\<open>loadingProgress\<close>, writes the error string there.
\<close>

theorem image_load_failure:
  fixes net :: "string \<Rightarrow> 'img option"
  assumes "net url = None"
  shows "(cache L url = None \<longrightarrow>
            loadImage net L url =
              (Inl (Error (''Failed to load image: '' @ url)), L, [ImageRequest url]))
       \<and> (cache L url = None \<and> url \<in> set (animation_urls L fba) \<longrightarrow>
            (\<exists>u L' tr0.
               loadAnimations net L fba =
                 (Inl (Error (''Failed to load image: '' @ u)), L', tr0 @ [ImageRequest u])
               \<and> net u = None \<and> cache L' u = None \<and> ImageRequest u \<notin> set tr0))
       \<and> (url \<in> set (animation_urls (AssetLoader_new ''images'' :: 'img AssetLoader) boot_frames) \<longrightarrow>
            (\<exists>u effs.
               boot net doc now =
                 (None,
                  effs @ ConsoleError (Error (''Failed to load image: '' @ u))
                       # (if ''loadingProgress'' \<in> set doc
                          then [SetLoadingProgress ''Failed to load assets. Check console.'']
                          else []))
               \<and> net u = None \<and> StartGame \<notin> set effs \<and> HideLoading \<notin> set effs))"
proof (intro conjI impI)
  assume "cache L url = None"
  then show "loadImage net L url =
      (Inl (Error (''Failed to load image: '' @ url)), L, [ImageRequest url])"
    using assms by (simp add: loadImage_def)
next
  assume "cache L url = None \<and> url \<in> set (animation_urls L fba)"
  then show "\<exists>u L' tr0.
       loadAnimations net L fba =
         (Inl (Error (''Failed to load image: '' @ u)), L', tr0 @ [ImageRequest u])
       \<and> net u = None \<and> cache L' u = None \<and> ImageRequest u \<notin> set tr0"
    using loadAnimations_fails[of url L fba net] assms
    by (auto simp: failure_message_def)
next
  let ?L = "AssetLoader_new ''images'' :: 'img AssetLoader"
  assume u: "url \<in> set (animation_urls ?L boot_frames)"
  have "cache ?L url = None" by (simp add: AssetLoader_new_def)
  from loadAnimations_fails[where net = net and url = url, OF u this assms]
  obtain u L' tr0 where f:
    "loadAnimations net ?L boot_frames = (Inl (failure_message u), L', tr0 @ [ImageRequest u])"
    "net u = None"
    by blast
  have "boot net doc now =
          (None, map Loader (tr0 @ [ImageRequest u])
                 @ ConsoleError (Error (''Failed to load image: '' @ u))
                 # (if ''loadingProgress'' \<in> set doc
                    then [SetLoadingProgress ''Failed to load assets. Check console.'']
                    else []))"
    using f(1) by (simp add: boot_def catch_branch_def failure_message_def)
  moreover have "StartGame \<notin> set (map Loader (tr0 @ [ImageRequest u]))"
    "HideLoading \<notin> set (map Loader (tr0 @ [ImageRequest u]))"
    by auto
  ultimately show "\<exists>u effs.
       boot net doc now =
         (None,
          effs @ ConsoleError (Error (''Failed to load image: '' @ u))
               # (if ''loadingProgress'' \<in> set doc
                  then [SetLoadingProgress ''Failed to load assets. Check console.'']
                  else []))
       \<and> net u = None \<and> StartGame \<notin> set effs \<and> HideLoading \<notin> set effs"
    using f(2) by blast
qed

lemma third_idle_frame_url: "''images/idle/3.png'' \<in> set (animation_urls (AssetLoader_new ''images'' :: nat AssetLoader) boot_frames)"
  by (simp add: animation_urls_def frame_url_def AssetLoader_new_def boot_frames_def decimal.simps digit_def)

theorem image_load_failure_witness:
  "demo_net ''images/idle/3.png'' = None
   \<and> ''images/idle/3.png'' \<in> set (animation_urls (AssetLoader_new ''images'' :: nat AssetLoader) boot_frames)
   \<and> boot demo_net [''canvas'', ''loading'', ''loadingProgress''] 0 =
       (None,
        [Loader (ImageRequest ''images/idle/1.png''), Loader (Progress 1 40),
         Loader (ImageRequest ''images/idle/2.png''), Loader (Progress 2 40),
         Loader (ImageRequest ''images/idle/3.png''),
         ConsoleError (Error ''Failed to load image: images/idle/3.png''),
         SetLoadingProgress ''Failed to load assets. Check console.''])"
proof -
  have n: "demo_net ''images/idle/3.png'' = None" by (simp add: demo_net_def)
  have b: "boot demo_net [''canvas'', ''loading'', ''loadingProgress''] 0 =
       (None,
        [Loader (ImageRequest ''images/idle/1.png''), Loader (Progress 1 40),
         Loader (ImageRequest ''images/idle/2.png''), Loader (Progress 2 40),
         Loader (ImageRequest ''images/idle/3.png''),
         ConsoleError (Error ''Failed to load image: images/idle/3.png''),
         SetLoadingProgress ''Failed to load assets. Check console.''])"
    by (simp add: boot_def loadAnimations_def boot_frames_def loadImage_def frame_url_def
        AssetLoader_new_def decimal.simps digit_def demo_net_def catch_branch_def)
  from image_load_failure[where net = demo_net and url = "''images/idle/3.png''"
      and L = "AssetLoader_new ''images''" and fba = boot_frames
      and doc = "[''canvas'', ''loading'', ''loadingProgress'']" and now = 0, OF n] n third_idle_frame_url b
  show ?thesis by simp
qed

subsection \<open>The fixed-timestep scheduler\<close>




lemma play_frameDurations: "frameDurations (play p s l) = frameDurations p"
  by (simp add: play_def)







text \<open>
  The constructor establishes the two conditions of the next theorem, and the bus
  handlers of the controller keep the frame durations.
\<close>

lemma Game_new_ready:
  "fixedDt (Game_new anims now) = 1000 / 60
   \<and> frameDurations (anim (player (Game_new anims now))) = game_frameDurations"
  by (simp add: Game_new_def enterState_def PlayerController_new_def AnimationPlayer_new_def
      play_frameDurations Let_def)

lemma on_bus_frameDurations:
  "frameDurations (anim (fst (on_bus p e))) = frameDurations (anim p)"
  by (cases e)
    (simp_all add: on_bus_def on_action_def on_reset_def enterState_def play_frameDurations
      Let_def split: option.splits)



end
